theory Spec2Isabelle
  imports Main "HOL-Library.Word"
begin

unbundle bit_operations_syntax

section \<open>Bytes, errors and the \<open>struct\<close> formats used by \<open>bson/objectid.py\<close>\<close>

text \<open>
  A Python \<open>bytes\<close> value is a list of 8-bit words; a Python \<open>int\<close> is an \<open>int\<close>.
  Every exception the module can raise is a value of \<open>error\<close>; a computation that may
  raise returns \<open>error + 'a\<close> with \<open>Inl\<close> for the exception.  \<open>InvalidId\<close> is the
  module's own subclass of \<open>ValueError\<close>; \<open>StructError\<close> is \<open>struct.error\<close>.
\<close>

type_synonym byte = "8 word"
type_synonym bytes = "byte list"

datatype error = InvalidId | TypeError | ValueError | StructError | OverflowError

text \<open>\<open>struct.pack(">i", v)\<close>: four bytes, big-endian two's complement; it raises
  \<open>struct.error\<close> outside the signed 32-bit range.\<close>

definition struct_pack_i :: "int \<Rightarrow> error + bytes" where
  "struct_pack_i v =
     (if - (2 ^ 31) \<le> v \<and> v < 2 ^ 31
      then Inr [word_of_int (v div 2 ^ 24), word_of_int (v div 2 ^ 16),
                word_of_int (v div 2 ^ 8), word_of_int v]
      else Inl StructError)"

text \<open>\<open>struct.pack(">H", v)\<close>: two bytes, big-endian unsigned.\<close>

definition struct_pack_H :: "int \<Rightarrow> error + bytes" where
  "struct_pack_H v =
     (if 0 \<le> v \<and> v < 2 ^ 16
      then Inr [word_of_int (v div 2 ^ 8), word_of_int v]
      else Inl StructError)"

text \<open>\<open>struct.pack("<I", v)\<close>: four bytes, little-endian unsigned.\<close>

definition struct_pack_I_le :: "int \<Rightarrow> error + bytes" where
  "struct_pack_I_le v =
     (if 0 \<le> v \<and> v < 2 ^ 32
      then Inr [word_of_int v, word_of_int (v div 2 ^ 8),
                word_of_int (v div 2 ^ 16), word_of_int (v div 2 ^ 24)]
      else Inl StructError)"

text \<open>The unsigned value of a big-endian byte string.\<close>

definition be_uint :: "bytes \<Rightarrow> int" where
  "be_uint bs = foldl (\<lambda>a b. a * 256 + uint b) 0 bs"

text \<open>\<open>struct.unpack(">i", bs)[0]\<close>: needs exactly four bytes.\<close>

definition struct_unpack_i :: "bytes \<Rightarrow> error + int" where
  "struct_unpack_i bs =
     (if length bs = 4
      then Inr (let u = be_uint bs in if u < 2 ^ 31 then u else u - 2 ^ 32)
      else Inl StructError)"

section \<open>The 24-bit FNV-1a hash\<close>

text \<open>The loop of \<open>_fnv_1a_24\<close> on Python's unbounded integers: the accumulator is
  XOR-ed with the byte, then multiplied by the prime and reduced modulo \<open>hash_size\<close>.
  \<open>_ord(elt)\<close> is the value of the byte, here \<open>uint elt\<close>.\<close>

fun fnv_loop :: "int \<Rightarrow> bytes \<Rightarrow> int" where
  "fnv_loop fnv_1a_hash [] = fnv_1a_hash"
| "fnv_loop fnv_1a_hash (elt # data) =
     fnv_loop (((fnv_1a_hash XOR uint elt) * 16777619) mod 2 ^ 32) data"

definition fnv_1a_24 :: "bytes \<Rightarrow> int" where
  "fnv_1a_24 data =
     (let fnv_1a_hash = fnv_loop 2166136261 data
      in drop_bit 24 fnv_1a_hash XOR (fnv_1a_hash AND 0xFFFFFF))"

text \<open>The algorithm as the specification words it, on 32-bit words: standard FNV-1a
  followed by the XOR-fold of the top 8 bits into the low 24.\<close>

definition fnv_1a_32_spec :: "bytes \<Rightarrow> 32 word" where
  "fnv_1a_32_spec data = foldl (\<lambda>h b. (h XOR ucast b) * 16777619) 2166136261 data"

definition xor_fold_24_spec :: "32 word \<Rightarrow> 32 word" where
  "xor_fold_24_spec h = drop_bit 24 h XOR (h AND 0xFFFFFF)"

text \<open>\<open>_machine_bytes()\<close>, applied to the encoded host name.\<close>

definition machine_bytes_of :: "bytes \<Rightarrow> error + bytes" where
  "machine_bytes_of hostname =
     (case struct_pack_I_le (fnv_1a_24 hostname) of
        Inl e \<Rightarrow> Inl e
      | Inr b \<Rightarrow> Inr (take 3 b))"

section \<open>The identifier and its generation\<close>

datatype ObjectId = ObjectId (binary: bytes)

text \<open>The class attributes \<open>ObjectId._inc\<close> and \<open>ObjectId._machine_bytes\<close>, and the
  two readings of the environment a generation takes: \<open>int(time.time())\<close> and
  \<open>os.getpid()\<close>.\<close>

record cls_state =
  inc :: int
  machine_bytes :: bytes

record env =
  now :: int
  pid :: int

text \<open>\<open>ObjectId.__generate\<close>: returns the new identifier and the class state after
  the counter update.\<close>

definition generate :: "env \<Rightarrow> cls_state \<Rightarrow> error + (ObjectId \<times> cls_state)" where
  "generate e c =
     (case struct_pack_i (now e) of
        Inl err \<Rightarrow> Inl err
      | Inr t \<Rightarrow>
         (case struct_pack_H (pid e mod 0xFFFF) of
            Inl err \<Rightarrow> Inl err
          | Inr p \<Rightarrow>
             (case struct_pack_i (inc c) of
                Inl err \<Rightarrow> Inl err
              | Inr i \<Rightarrow>
                 Inr (ObjectId (t @ machine_bytes c @ p @ take 3 (drop 1 i)),
                      c\<lparr>inc := (inc c + 1) mod 0xFFFFFF\<rparr>))))"

text \<open>The slice \<open>raw[lo:hi]\<close> for \<open>0 \<le> lo \<le> hi\<close>.\<close>

definition slice :: "nat \<Rightarrow> nat \<Rightarrow> 'a list \<Rightarrow> 'a list" where
  "slice lo hi xs = take (hi - lo) (drop lo xs)"

section \<open>Hexadecimal text\<close>

text \<open>
  A Python \<open>str\<close> is a \<open>string\<close>, one \<open>char\<close> per character.
  \<open>binascii.hexlify\<close> writes each byte as two lowercase hexadecimal digits, the high
  nibble first.
\<close>

definition hex_digit :: "nat \<Rightarrow> char" where
  "hex_digit n = ''0123456789abcdef'' ! n"

definition hexlify :: "bytes \<Rightarrow> string" where
  "hexlify bs = concat (map (\<lambda>b. [hex_digit (unat b div 16), hex_digit (unat b mod 16)]) bs)"

text \<open>The value of a hexadecimal digit, of either case.\<close>

definition hexval :: "char \<Rightarrow> nat option" where
  "hexval ch =
     map_of
       [(CHR ''0'', 0), (CHR ''1'', 1), (CHR ''2'', 2), (CHR ''3'', 3), (CHR ''4'', 4),
        (CHR ''5'', 5), (CHR ''6'', 6), (CHR ''7'', 7), (CHR ''8'', 8), (CHR ''9'', 9),
        (CHR ''a'', 10), (CHR ''b'', 11), (CHR ''c'', 12), (CHR ''d'', 13), (CHR ''e'', 14),
        (CHR ''f'', 15),
        (CHR ''A'', 10), (CHR ''B'', 11), (CHR ''C'', 12), (CHR ''D'', 13), (CHR ''E'', 14),
        (CHR ''F'', 15)] ch"

text \<open>
  Modelled from the spec: \<open>bytes_from_hex\<close> of \<open>bson.py3compat\<close>, whose source is
  missing.  The specification has a string of hexadecimal digits decode, two digits per
  byte and case-insensitively, and anything that is not valid hexadecimal fail; the
  failure is the \<open>ValueError\<close> that \<open>__validate\<close> catches.
\<close>

fun bytes_from_hex :: "string \<Rightarrow> error + bytes" where
  "bytes_from_hex [] = Inr []"
| "bytes_from_hex [hi] = Inl ValueError"
| "bytes_from_hex (hi # lo # rest) =
     (case (hexval hi, hexval lo) of
        (Some h, Some l) \<Rightarrow>
          (case bytes_from_hex rest of
             Inl err \<Rightarrow> Inl err
           | Inr bs \<Rightarrow> Inr (word_of_nat (16 * h + l) # bs))
      | _ \<Rightarrow> Inl ValueError)"

section \<open>Construction\<close>

text \<open>
  Modelled from the spec: \<open>string_type\<close> and \<open>text_type\<close> of \<open>bson.py3compat\<close>, whose
  source is missing, are the text type \<open>str\<close>, distinct from \<open>bytes\<close>: the specification
  takes a text string of 24 characters or a sequence of 12 bytes.  With that, these are
  the values a caller can pass as \<open>oid\<close>.
\<close>

datatype pyval =
    PNone
  | PInt int
  | PStr string
  | PBytes bytes
  | PObjectId ObjectId

text \<open>Python's truth value: \<open>None\<close>, zero and empty sequences are false; an
  \<open>ObjectId\<close> defines neither \<open>__bool__\<close> nor \<open>__len__\<close> and is true.\<close>

fun truthy :: "pyval \<Rightarrow> bool" where
  "truthy PNone = False"
| "truthy (PInt n) = (n \<noteq> 0)"
| "truthy (PStr s) = (s \<noteq> [])"
| "truthy (PBytes b) = (b \<noteq> [])"
| "truthy (PObjectId x) = True"

text \<open>\<open>ObjectId.__validate\<close>.  The handler \<open>except (TypeError, ValueError)\<close> also
  catches \<open>InvalidId\<close>, a subclass of \<open>ValueError\<close>.\<close>

fun validate :: "pyval \<Rightarrow> error + ObjectId" where
  "validate (PObjectId oid) = Inr (ObjectId (binary oid))"
| "validate (PStr oid) =
     (if length oid = 24
      then (case bytes_from_hex oid of
              Inr b \<Rightarrow> Inr (ObjectId b)
            | Inl err \<Rightarrow>
                if err = TypeError \<or> err = ValueError \<or> err = InvalidId
                then Inl InvalidId else Inl err)
      else Inl InvalidId)"
| "validate oid = Inl TypeError"

text \<open>\<open>ObjectId.__init__\<close>; \<open>PNone\<close> is the default argument.\<close>

definition ObjectId_init :: "env \<Rightarrow> cls_state \<Rightarrow> pyval \<Rightarrow> error + (ObjectId \<times> cls_state)" where
  "ObjectId_init e c oid =
     (case oid of
        PNone \<Rightarrow> generate e c
      | PBytes b \<Rightarrow>
          (if length b = 12 then Inr (ObjectId b, c)
           else (case validate oid of Inl err \<Rightarrow> Inl err | Inr x \<Rightarrow> Inr (x, c)))
      | _ \<Rightarrow> (case validate oid of Inl err \<Rightarrow> Inl err | Inr x \<Rightarrow> Inr (x, c)))"

text \<open>The class body: \<open>_inc = random.randint(0, 0xFFFFFF)\<close> with the drawn number
  \<open>r\<close>, and \<open>_machine_bytes = _machine_bytes()\<close> on the encoded host name.\<close>

definition cls_load :: "bytes \<Rightarrow> int \<Rightarrow> error + cls_state" where
  "cls_load hostname r =
     (case machine_bytes_of hostname of
        Inl err \<Rightarrow> Inl err
      | Inr m \<Rightarrow> Inr \<lparr>inc = r, machine_bytes = m\<rparr>)"

section \<open>Calendar timestamps\<close>

text \<open>
  A \<open>datetime.datetime\<close> is kept as the reading of its calendar fields, counted in
  microseconds from 1970-01-01T00:00:00 on the proleptic Gregorian calendar
  (\<open>wall_us\<close>), and the result of \<open>utcoffset()\<close> in microseconds (\<open>None\<close> for a naive
  value).  \<open>datetime.min\<close> and \<open>datetime.max\<close> bound the readings the type can hold.
\<close>

record datetime =
  wall_us :: int
  utcoffset :: "int option"

definition datetime_min :: int where
  "datetime_min = - 62135596800000000"

definition datetime_max :: int where
  "datetime_max = 253402300799999999"

text \<open>\<open>dt - delta\<close>: the fields move, the \<open>tzinfo\<close> stays; \<open>OverflowError\<close> outside
  the years 1 to 9999.\<close>

definition datetime_sub :: "datetime \<Rightarrow> int \<Rightarrow> error + datetime" where
  "datetime_sub t delta =
     (let w = wall_us t - delta
      in if datetime_min \<le> w \<and> w \<le> datetime_max then Inr (t\<lparr>wall_us := w\<rparr>)
         else Inl OverflowError)"

text \<open>\<open>calendar.timegm(t.timetuple())\<close>: the time tuple drops the microseconds and
  \<open>timegm\<close> counts the seconds of the remaining fields from the epoch.\<close>

definition timegm_timetuple :: "datetime \<Rightarrow> int" where
  "timegm_timetuple t = wall_us t div 1000000"

text \<open>\<open>datetime.datetime.fromtimestamp(timestamp, utc)\<close> for a whole number of
  seconds; \<open>utc\<close> of \<open>bson.tz_util\<close> is the fixed offset zero.\<close>

definition fromtimestamp_utc :: "int \<Rightarrow> error + datetime" where
  "fromtimestamp_utc timestamp =
     (let w = timestamp * 1000000
      in if datetime_min \<le> w \<and> w \<le> datetime_max
         then Inr \<lparr>wall_us = w, utcoffset = Some 0\<rparr>
         else Inl OverflowError)"

text \<open>\<open>t1 < t2\<close> on timestamps.  The first argument says whether the two values
  carry the same \<open>tzinfo\<close> object (two naive values both carry \<open>None\<close>, so it is
  true for them).  On a shared \<open>tzinfo\<close>, or on equal offsets, the fields are
  compared and the offsets ignored; otherwise a naive with an aware value is a
  \<open>TypeError\<close>, and two aware values are compared by their instants.\<close>

definition datetime_lt :: "bool \<Rightarrow> datetime \<Rightarrow> datetime \<Rightarrow> error + bool" where
  "datetime_lt same_tzinfo t1 t2 =
     (if same_tzinfo \<or> utcoffset t1 = utcoffset t2 then Inr (wall_us t1 < wall_us t2)
      else (case (utcoffset t1, utcoffset t2) of
              (Some d1, Some d2) \<Rightarrow> Inr (wall_us t1 - d1 < wall_us t2 - d2)
            | _ \<Rightarrow> Inl TypeError))"

text \<open>\<open>ObjectId.from_datetime\<close>.\<close>

definition from_datetime :: "env \<Rightarrow> cls_state \<Rightarrow> datetime \<Rightarrow> error + (ObjectId \<times> cls_state)" where
  "from_datetime e c generation_time =
     (case (case utcoffset generation_time of
              None \<Rightarrow> Inr generation_time
            | Some d \<Rightarrow> datetime_sub generation_time d) of
        Inl err \<Rightarrow> Inl err
      | Inr gt \<Rightarrow>
          (case struct_pack_i (timegm_timetuple gt) of
             Inl err \<Rightarrow> Inl err
           | Inr ts \<Rightarrow> ObjectId_init e c (PBytes (ts @ [0, 0, 0, 0, 0, 0, 0, 0]))))"

text \<open>The property \<open>ObjectId.generation_time\<close>.\<close>

definition generation_time :: "ObjectId \<Rightarrow> error + datetime" where
  "generation_time x =
     (case struct_unpack_i (slice 0 4 (binary x)) of
        Inl err \<Rightarrow> Inl err
      | Inr timestamp \<Rightarrow> fromtimestamp_utc timestamp)"

text \<open>The Unix seconds of a timestamp, as the specification speaks of them: the
  instant in UTC (a naive value taken as UTC), in whole seconds.\<close>

definition unix_seconds :: "datetime \<Rightarrow> int" where
  "unix_seconds t =
     (wall_us t - (case utcoffset t of None \<Rightarrow> 0 | Some d \<Rightarrow> d)) div 1000000"

section \<open>Validity check, rendering and comparison\<close>

text \<open>The \<open>try\<close> statement of \<open>is_valid\<close> around the construction: success is
  \<open>True\<close>, \<open>except (InvalidId, TypeError)\<close> is \<open>False\<close>, and any other exception
  leaves the function.\<close>

definition is_valid_try :: "error + 'a \<Rightarrow> error + bool" where
  "is_valid_try r =
     (case r of
        Inr x \<Rightarrow> Inr True
      | Inl err \<Rightarrow> if err = InvalidId \<or> err = TypeError then Inr False else Inl err)"

definition is_valid :: "env \<Rightarrow> cls_state \<Rightarrow> pyval \<Rightarrow> error + bool" where
  "is_valid e c oid =
     (if \<not> truthy oid then Inr False else is_valid_try (ObjectId_init e c oid))"

text \<open>\<open>ObjectId.__str__\<close>.\<close>

definition ObjectId_str :: "ObjectId \<Rightarrow> string" where
  "ObjectId_str x = hexlify (binary x)"

text \<open>Python's \<open><\<close> on \<open>bytes\<close>: lexicographic on the unsigned byte values, a proper
  prefix being smaller.\<close>

fun bytes_lt :: "bytes \<Rightarrow> bytes \<Rightarrow> bool" where
  "bytes_lt [] [] = False"
| "bytes_lt [] (y # ys) = True"
| "bytes_lt (x # xs) [] = False"
| "bytes_lt (x # xs) (y # ys) = (x < y \<or> (x = y \<and> bytes_lt xs ys))"

text \<open>The result of a rich comparison method: a boolean or \<open>NotImplemented\<close>.\<close>

datatype cmp_result = Bool bool | NotImplemented

fun ObjectId_eq :: "ObjectId \<Rightarrow> pyval \<Rightarrow> cmp_result" where
  "ObjectId_eq x (PObjectId other) = Bool (binary x = binary other)"
| "ObjectId_eq x other = NotImplemented"

fun ObjectId_ne :: "ObjectId \<Rightarrow> pyval \<Rightarrow> cmp_result" where
  "ObjectId_ne x (PObjectId other) = Bool (binary x \<noteq> binary other)"
| "ObjectId_ne x other = NotImplemented"

fun ObjectId_lt :: "ObjectId \<Rightarrow> pyval \<Rightarrow> cmp_result" where
  "ObjectId_lt x (PObjectId other) = Bool (bytes_lt (binary x) (binary other))"
| "ObjectId_lt x other = NotImplemented"

fun ObjectId_le :: "ObjectId \<Rightarrow> pyval \<Rightarrow> cmp_result" where
  "ObjectId_le x (PObjectId other) =
     Bool (bytes_lt (binary x) (binary other) \<or> binary x = binary other)"
| "ObjectId_le x other = NotImplemented"

fun ObjectId_gt :: "ObjectId \<Rightarrow> pyval \<Rightarrow> cmp_result" where
  "ObjectId_gt x (PObjectId other) = Bool (bytes_lt (binary other) (binary x))"
| "ObjectId_gt x other = NotImplemented"

fun ObjectId_ge :: "ObjectId \<Rightarrow> pyval \<Rightarrow> cmp_result" where
  "ObjectId_ge x (PObjectId other) =
     Bool (bytes_lt (binary other) (binary x) \<or> binary x = binary other)"
| "ObjectId_ge x other = NotImplemented"

section \<open>Construction paths\<close>

text \<open>The class states a process can be in: the one the class body leaves, and every
  state a generation leaves.\<close>

inductive cls_reachable :: "cls_state \<Rightarrow> bool" where
  loaded: "0 \<le> r \<Longrightarrow> r \<le> 0xFFFFFF \<Longrightarrow> cls_load hostname r = Inr c \<Longrightarrow> cls_reachable c"
| generated: "cls_reachable c \<Longrightarrow> generate e c = Inr (x, c') \<Longrightarrow> cls_reachable c'"

text \<open>The identifiers a process can construct: freshly generated, from bytes, from
  text, copied from a constructed identifier, or built from a timestamp.\<close>

inductive constructed :: "ObjectId \<Rightarrow> bool" where
  fresh: "cls_reachable c \<Longrightarrow> ObjectId_init e c PNone = Inr (x, c') \<Longrightarrow> constructed x"
| of_bytes: "ObjectId_init e c (PBytes b) = Inr (x, c') \<Longrightarrow> constructed x"
| of_text: "ObjectId_init e c (PStr s) = Inr (x, c') \<Longrightarrow> constructed x"
| of_int: "ObjectId_init e c (PInt n) = Inr (x, c') \<Longrightarrow> constructed x"
| copied: "constructed y \<Longrightarrow> ObjectId_init e c (PObjectId y) = Inr (x, c') \<Longrightarrow> constructed x"
| of_datetime: "from_datetime e c t = Inr (x, c') \<Longrightarrow> constructed x"

section \<open>Facts about the encodings\<close>

lemma struct_pack_i_length: "struct_pack_i v = Inr b \<Longrightarrow> length b = 4"
  by (auto simp: struct_pack_i_def split: if_splits)

lemma struct_pack_H_length: "struct_pack_H v = Inr b \<Longrightarrow> length b = 2"
  by (auto simp: struct_pack_H_def split: if_splits)

lemma uint_byte_mod: "uint (b::byte) mod 4294967296 = uint b"
proof -
  have "uint b < 2 ^ 8" using uint_lt2p [of b] by simp
  then show ?thesis by simp
qed

lemma fnv_step:
  "((uint (w::32 word) XOR uint (b::byte)) * 16777619) mod 2 ^ 32
     = uint ((w XOR ucast b) * 16777619)"
  by (simp add: uint_word_ariths unsigned_xor_eq unsigned_ucast_eq take_bit_eq_mod uint_byte_mod)

lemma fnv_loop_word:
  "fnv_loop (uint (w::32 word)) data
     = uint (foldl (\<lambda>h b. (h XOR ucast b) * 16777619) w data)"
proof (induction data arbitrary: w)
  case Nil
  show ?case by simp
next
  case (Cons a data)
  have "fnv_loop (uint w) (a # data) = fnv_loop (uint ((w XOR ucast a) * 16777619)) data"
    by (simp only: fnv_loop.simps fnv_step)
  then show ?case by (simp only: Cons.IH foldl_Cons)
qed

lemma fold_word:
  "drop_bit 24 (uint (w::32 word)) XOR (uint w AND 0xFFFFFF) = uint (xor_fold_24_spec w)"
proof -
  have "take_bit 32 (uint w) = uint w"
    using uint_lt2p [of w] by (simp add: take_bit_int_eq_self)
  then show ?thesis
    by (simp add: xor_fold_24_spec_def unsigned_xor_eq unsigned_and_eq unsigned_drop_bit_eq)
qed

lemma fnv_loop_spec: "fnv_loop 2166136261 data = uint (fnv_1a_32_spec data)"
  using fnv_loop_word [of 2166136261 data] by (simp add: fnv_1a_32_spec_def)

lemma fold_bound:
  fixes h :: int
  assumes "0 \<le> h" "h < 2 ^ 32"
  shows "0 \<le> drop_bit 24 h XOR (h AND 0xFFFFFF)
       \<and> drop_bit 24 h XOR (h AND 0xFFFFFF) < 2 ^ 24"
proof -
  have a: "0 \<le> drop_bit 24 h" using assms by simp
  have "drop_bit 24 h = h div 2 ^ 24" by (simp add: drop_bit_eq_div)
  also have "\<dots> < 2 ^ 24" using assms by simp
  finally have b: "drop_bit 24 h < 2 ^ 24" .
  have c: "0 \<le> h AND 0xFFFFFF" using assms by simp
  have "h AND 0xFFFFFF \<le> 0xFFFFFF" by (rule AND_upper2) simp
  then have d: "h AND 0xFFFFFF < 2 ^ 24" by simp
  from a c have "0 \<le> drop_bit 24 h XOR (h AND 0xFFFFFF)" by simp
  moreover have "drop_bit 24 h XOR (h AND 0xFFFFFF) < 2 ^ 24"
    using a b d by (rule XOR_upper)
  ultimately show ?thesis by simp
qed

lemma fnv_1a_24_range: "0 \<le> fnv_1a_24 data \<and> fnv_1a_24 data < 2 ^ 24"
proof -
  have "0 \<le> fnv_loop 2166136261 data" "fnv_loop 2166136261 data < 2 ^ 32"
    using uint_lt2p [of "fnv_1a_32_spec data"] by (simp_all add: fnv_loop_spec)
  then show ?thesis unfolding fnv_1a_24_def Let_def by (rule fold_bound)
qed

lemma machine_bytes_of_length: "\<exists>b. machine_bytes_of h = Inr b \<and> length b = 3"
  using fnv_1a_24_range [of h] by (simp add: machine_bytes_of_def struct_pack_I_le_def)

text \<open>What a successful generation stores in the process-id and counter fields, and
  what it leaves in the counter.\<close>

lemma generate_fields:
  assumes "generate e c = Inr (x, c')" and "length (machine_bytes c) = 3"
  shows "struct_pack_H (pid e mod 65535) = Inr (slice 7 9 (binary x))
       \<and> (\<exists>i. struct_pack_i (inc c) = Inr i \<and> slice 9 12 (binary x) = slice 1 4 i)
       \<and> inc c' = (inc c + 1) mod 16777215"
  using assms
  by (auto simp: generate_def slice_def split: sum.splits
      dest!: struct_pack_i_length struct_pack_H_length)

lemma hex_digits_all:
  "\<forall>n \<in> {0..<16::nat}. hexval (hex_digit n) = Some n
      \<and> hex_digit n \<in> set ''0123456789abcdef''"
  by code_simp

lemma hexval_hex_digit: "n < 16 \<Longrightarrow> hexval (hex_digit n) = Some n"
  using hex_digits_all by simp

lemma hex_digit_lower: "n < 16 \<Longrightarrow> hex_digit n \<in> set ''0123456789abcdef''"
  using hex_digits_all by simp

lemma hexlify_Cons:
  "hexlify (b # bs) = hex_digit (unat b div 16) # hex_digit (unat b mod 16) # hexlify bs"
  by (simp add: hexlify_def)

lemma nibble_bounds: "unat (b::byte) div 16 < 16 \<and> unat b mod 16 < 16"
  using unsigned_less [of b, where 'a = nat] by simp

lemma bytes_from_hex_hexlify: "bytes_from_hex (hexlify bs) = Inr bs"
proof (induction bs)
  case Nil
  show ?case by (simp add: hexlify_def)
next
  case (Cons b bs)
  from nibble_bounds [of b] have "hexval (hex_digit (unat b div 16)) = Some (unat b div 16)"
    and "hexval (hex_digit (unat b mod 16)) = Some (unat b mod 16)"
    by (simp_all add: hexval_hex_digit)
  then show ?case using Cons.IH by (simp add: hexlify_Cons)
qed

lemma length_hexlify: "length (hexlify bs) = 2 * length bs"
  by (induction bs) (simp_all add: hexlify_def)

lemma set_hexlify: "set (hexlify bs) \<subseteq> set ''0123456789abcdef''"
proof (induction bs)
  case Nil
  show ?case by (simp add: hexlify_def)
next
  case (Cons b bs)
  have hi: "unat b div 16 < 16" and lo: "unat b mod 16 < 16"
    using nibble_bounds [of b] by simp_all
  show ?case
    using Cons.IH hex_digit_lower [OF hi] hex_digit_lower [OF lo] by (simp add: hexlify_Cons)
qed

section \<open>The process-id field\<close>

text \<open>
  C1: the process-id field, bytes [7:9] of a generated identifier, should hold the
  process id modulo 65536 as an unsigned big-endian 16-bit integer.  The code reduces the
  process id modulo \<open>0xFFFF\<close>, which is 65535: for the process id 65535 the generated
  field is \<open>00 00\<close>, while 65535 modulo 65536 encodes as \<open>ff ff\<close>.
\<close>

theorem generate_pid_65535:
  "generate \<lparr>now = 0, pid = 65535\<rparr> \<lparr>inc = 0, machine_bytes = [0, 0, 0]\<rparr>
     = Inr (ObjectId [0, 0, 0, 0, 0, 0, 0, 0, 0, 0, 0, 0], \<lparr>inc = 1, machine_bytes = [0, 0, 0]\<rparr>)
   \<and> slice 7 9 (binary (ObjectId [0, 0, 0, 0, 0, 0, 0, 0, 0, 0, 0, 0])) = [0, 0]
   \<and> struct_pack_H (65535 mod 65536) = Inr [255, 255]"
  by (simp add: generate_def struct_pack_i_def struct_pack_H_def slice_def)

section \<open>The counter\<close>

text \<open>
  C2: a generation should encode the counter value \<open>c\<close> in bytes [9:12] and leave the
  counter at \<open>(c + 1) mod 2^24\<close>.  The code reduces the incremented counter modulo
  \<open>0xFFFFFF\<close>, which is \<open>2^24 - 1\<close>: from 16777214 the counter goes to 0 instead of
  16777215, and from 16777215 (a value the initial \<open>randint(0, 0xFFFFFF)\<close> can draw) it
  goes to 1 instead of 0.
\<close>

theorem generate_counter_16777214:
  "generate \<lparr>now = 0, pid = 0\<rparr> \<lparr>inc = 16777214, machine_bytes = [0, 0, 0]\<rparr>
     = Inr (ObjectId [0, 0, 0, 0, 0, 0, 0, 0, 0, 255, 255, 254],
            \<lparr>inc = 0, machine_bytes = [0, 0, 0]\<rparr>)
   \<and> (16777214 + 1) mod 2 ^ 24 = (16777215 :: int)
   \<and> generate \<lparr>now = 0, pid = 0\<rparr> \<lparr>inc = 16777215, machine_bytes = [0, 0, 0]\<rparr>
     = Inr (ObjectId [0, 0, 0, 0, 0, 0, 0, 0, 0, 255, 255, 255],
            \<lparr>inc = 1, machine_bytes = [0, 0, 0]\<rparr>)"
  by (simp add: generate_def struct_pack_i_def struct_pack_H_def)

section \<open>The hash refines 32-bit FNV-1a with an XOR-fold\<close>

text \<open>
  C3: for every byte sequence, \<open>_fnv_1a_24\<close> computes the 32-bit FNV-1a hash (offset
  basis 2166136261; per byte, XOR then multiply by 16777619 modulo \<open>2^32\<close>) and XOR-folds
  it to 24 bits, the top 8 bits into the low 24; on the empty sequence it returns the fold
  of the offset basis itself.  The result is a function of the bytes alone.
\<close>

theorem fnv_1a_24_refines_spec:
  "fnv_1a_24 data = uint (xor_fold_24_spec (fnv_1a_32_spec data))
   \<and> fnv_1a_24 [] = drop_bit 24 2166136261 XOR (2166136261 AND 0xFFFFFF)"
  by (simp add: fnv_1a_24_def Let_def fold_word fnv_loop_spec)

section \<open>Hexadecimal round trip\<close>

text \<open>
  C4: for every identifier \<open>x\<close> (12 raw bytes), constructing an identifier from the
  hexadecimal rendering of \<open>x\<close> gives \<open>x\<close> back; the rendering has 24 characters, all
  lowercase hexadecimal digits, two per raw byte.
\<close>

theorem hex_round_trip:
  assumes "length (binary x) = 12"
  shows "ObjectId_init e c (PStr (ObjectId_str x)) = Inr (x, c)
       \<and> ObjectId_eq x (PObjectId x) = Bool True
       \<and> length (ObjectId_str x) = 24
       \<and> set (ObjectId_str x) \<subseteq> set ''0123456789abcdef''
       \<and> ObjectId_str x
           = concat (map (\<lambda>b. [hex_digit (unat b div 16), hex_digit (unat b mod 16)]) (binary x))"
proof -
  have len: "length (ObjectId_str x) = 24"
    using assms by (simp add: ObjectId_str_def length_hexlify)
  have "validate (PStr (ObjectId_str x)) = Inr x"
    using len by (simp add: ObjectId_str_def bytes_from_hex_hexlify)
  then have "ObjectId_init e c (PStr (ObjectId_str x)) = Inr (x, c)"
    by (simp add: ObjectId_init_def)
  moreover have "set (ObjectId_str x) \<subseteq> set ''0123456789abcdef''"
    unfolding ObjectId_str_def by (rule set_hexlify)
  moreover have "ObjectId_str x
      = concat (map (\<lambda>b. [hex_digit (unat b div 16), hex_digit (unat b mod 16)]) (binary x))"
    by (simp add: ObjectId_str_def hexlify_def)
  ultimately show ?thesis using len by simp
qed

theorem hex_round_trip_witness:
  "length (binary (ObjectId [0x66,0x6f,0x6f,0x2d,0x62,0x61,0x72,0x2d,0x71,0x75,0x75,0x78])) = 12
   \<and> ObjectId_str (ObjectId [0x66,0x6f,0x6f,0x2d,0x62,0x61,0x72,0x2d,0x71,0x75,0x75,0x78])
       = ''666f6f2d6261722d71757578''
   \<and> ObjectId_init \<lparr>now = 0, pid = 0\<rparr> \<lparr>inc = 0, machine_bytes = []\<rparr>
         (PStr ''666f6f2d6261722d71757578'')
       = Inr (ObjectId [0x66,0x6f,0x6f,0x2d,0x62,0x61,0x72,0x2d,0x71,0x75,0x75,0x78],
              \<lparr>inc = 0, machine_bytes = []\<rparr>)"
proof -
  let ?x = "ObjectId [0x66,0x6f,0x6f,0x2d,0x62,0x61,0x72,0x2d,0x71,0x75,0x75,0x78]"
  have len: "length (binary ?x) = 12" by simp
  have str: "ObjectId_str ?x = ''666f6f2d6261722d71757578''"
    by code_simp
  have "ObjectId_init \<lparr>now = 0, pid = 0\<rparr> \<lparr>inc = 0, machine_bytes = []\<rparr> (PStr (ObjectId_str ?x))
      = Inr (?x, \<lparr>inc = 0, machine_bytes = []\<rparr>)"
    using hex_round_trip [OF len] by (rule conjunct1)
  then show ?thesis unfolding str using len str by simp
qed

section \<open>Packing, unpacking and the order of packed timestamps\<close>

lemma be_uint_4:
  "be_uint [b0, b1, b2, b3] = uint b0 * 16777216 + uint b1 * 65536 + uint b2 * 256 + uint b3"
  by (simp add: be_uint_def)

lemma byte_of_int: "uint (word_of_int k :: byte) = k mod 256"
  by (simp add: uint_word_of_int)

lemma combine4:
  fixes x y z q1 q2 q3 q4 :: int
  assumes "x = 256 * y + q1" "y = 256 * z + q2" "z = 256 * q4 + q3"
  shows "q4 * 16777216 + q3 * 65536 + q2 * 256 + q1 = x"
  using assms by simp

lemma split_mod32:
  fixes v :: int
  shows "(v div 16777216) mod 256 * 16777216 + (v div 65536) mod 256 * 65536
         + (v div 256) mod 256 * 256 + v mod 256 = v mod 4294967296"
proof -
  have p1: "(256::int) * 16777216 = 4294967296"
    and p2: "(256::int) * 65536 = 16777216"
    and p3: "(256::int) * 256 = 65536" by simp_all
  have d1: "v div 256 div 256 = v div 65536"
    using zdiv_zmult2_eq [of 256 v 256] unfolding p3 by simp
  have d2: "v div 65536 div 256 = v div 16777216"
    using zdiv_zmult2_eq [of 256 v 65536] unfolding mult.commute [of 65536 256] p2 by simp
  have "v mod (256 * 16777216) = 256 * (v div 256 mod 16777216) + v mod 256"
    by (rule zmod_zmult2_eq) simp
  then have a: "v mod 4294967296 = 256 * (v div 256 mod 16777216) + v mod 256"
    unfolding p1 .
  have "v div 256 mod (256 * 65536) = 256 * (v div 256 div 256 mod 65536) + v div 256 mod 256"
    by (rule zmod_zmult2_eq) simp
  then have b: "v div 256 mod 16777216 = 256 * (v div 65536 mod 65536) + v div 256 mod 256"
    unfolding p2 d1 .
  have "v div 65536 mod (256 * 256) = 256 * (v div 65536 div 256 mod 256) + v div 65536 mod 256"
    by (rule zmod_zmult2_eq) simp
  then have c: "v div 65536 mod 65536 = 256 * (v div 16777216 mod 256) + v div 65536 mod 256"
    unfolding p3 d2 .
  show ?thesis by (rule combine4 [OF a b c])
qed

lemma be_uint_pack:
  "be_uint [word_of_int (v div 2 ^ 24), word_of_int (v div 2 ^ 16), word_of_int (v div 2 ^ 8), word_of_int v]
     = v mod 2 ^ 32"
proof -
  have "be_uint [word_of_int (v div 16777216), word_of_int (v div 65536), word_of_int (v div 256), word_of_int v]
      = v mod 4294967296"
    unfolding be_uint_4 byte_of_int by (rule split_mod32)
  then show ?thesis by simp
qed

lemma mod_below:
  fixes v m :: int
  assumes "- m \<le> v" "v < 0"
  shows "v mod m = v + m"
proof -
  have "(v + m) mod m = v + m" by (rule mod_pos_pos_trivial) (use assms in simp_all)
  moreover have "(v + m) mod m = v mod m" by simp
  ultimately show ?thesis by simp
qed

lemma mod_above:
  fixes a m :: int
  assumes "m \<le> a" "a < 2 * m"
  shows "a mod m = a - m"
proof -
  have "(a - m) mod m = a - m" by (rule mod_pos_pos_trivial) (use assms in simp_all)
  moreover have "(a - m) mod m = a mod m" by simp
  ultimately show ?thesis by simp
qed

lemma signed_of_mod:
  fixes v :: int
  assumes "- (2 ^ 31) \<le> v" "v < 2 ^ 31"
  shows "(let u = v mod 2 ^ 32 in if u < 2 ^ 31 then u else u - 2 ^ 32) = v"
proof (cases "0 \<le> v")
  case True
  then have "v mod 2 ^ 32 = v" using assms by simp
  then show ?thesis using assms by simp
next
  case False
  then have "v mod 4294967296 = v + 4294967296"
    using assms by (intro mod_below) simp_all
  then show ?thesis using False assms by (simp add: Let_def)
qed

lemma unpack_pack:
  assumes "struct_pack_i v = Inr b"
  shows "struct_unpack_i b = Inr v \<and> be_uint b = v mod 2 ^ 32"
proof -
  from assms have r: "- (2 ^ 31) \<le> v" "v < 2 ^ 31"
    and b: "b = [word_of_int (v div 2 ^ 24), word_of_int (v div 2 ^ 16),
                 word_of_int (v div 2 ^ 8), word_of_int v]"
    by (auto simp: struct_pack_i_def split: if_splits)
  have u: "be_uint b = v mod 2 ^ 32" unfolding b by (rule be_uint_pack)
  have "struct_unpack_i b = Inr (let u = v mod 2 ^ 32 in if u < 2 ^ 31 then u else u - 2 ^ 32)"
    unfolding struct_unpack_i_def u by (simp add: b)
  then show ?thesis using signed_of_mod [OF r] u by simp
qed

lemma be_uint_range: "0 \<le> be_uint [b0, b1, b2, b3] \<and> be_uint [b0, b1, b2, b3] < 2 ^ 32"
proof -
  have "uint b0 < 2 ^ 8" "uint b1 < 2 ^ 8" "uint b2 < 2 ^ 8" "uint b3 < 2 ^ 8"
    using uint_lt2p [of b0] uint_lt2p [of b1] uint_lt2p [of b2] uint_lt2p [of b3] by simp_all
  moreover have "0 \<le> uint b0" "0 \<le> uint b1" "0 \<le> uint b2" "0 \<le> uint b3" by simp_all
  ultimately show ?thesis unfolding be_uint_4 by simp
qed

lemma sint_of_unsigned:
  fixes u :: int
  assumes "0 \<le> u" "u < 2 ^ 32"
  shows "sint (word_of_int u :: 32 word) = (if u < 2 ^ 31 then u else u - 2 ^ 32)"
proof (cases "u < 2 ^ 31")
  case True
  then show ?thesis using assms by (simp add: signed_of_int signed_take_bit_int_eq_self)
next
  case False
  have "(u + 2147483648) mod 4294967296 = u + 2147483648 - 4294967296"
    using assms False by (intro mod_above) simp_all
  then have "signed_take_bit 31 u = u - 4294967296"
    by (simp add: signed_take_bit_eq_take_bit_shift take_bit_eq_mod)
  then show ?thesis using False by (simp add: signed_of_int)
qed


lemma micro_bounds:
  fixes w q r :: int
  assumes "w = 1000000 * q + r" "0 \<le> r" "r < 1000000"
    and "- 2147483648 \<le> q" "q < 2147483648"
  shows "- 62135596800000000 \<le> w \<and> w \<le> 253402300799999999"
  using assms by simp

lemma div_in_range:
  fixes w :: int
  assumes "- (2 ^ 31) \<le> w div 1000000" "w div 1000000 < 2 ^ 31"
  shows "datetime_min \<le> w \<and> w \<le> datetime_max"
proof -
  have "w = 1000000 * (w div 1000000) + w mod 1000000" by simp
  moreover have "0 \<le> w mod 1000000" "w mod 1000000 < 1000000" by simp_all
  moreover have "- 2147483648 \<le> w div 1000000" "w div 1000000 < 2147483648"
    using assms by simp_all
  ultimately show ?thesis
    unfolding datetime_min_def datetime_max_def by (rule micro_bounds)
qed

lemma from_datetime_in_range:
  assumes "- (2 ^ 31) \<le> unix_seconds t" "unix_seconds t < 2 ^ 31"
  shows "from_datetime e c t
           = Inr (ObjectId ([word_of_int (unix_seconds t div 2 ^ 24),
                             word_of_int (unix_seconds t div 2 ^ 16),
                             word_of_int (unix_seconds t div 2 ^ 8),
                             word_of_int (unix_seconds t)] @ [0, 0, 0, 0, 0, 0, 0, 0]), c)"
proof (cases "utcoffset t")
  case None
  then have "timegm_timetuple t = unix_seconds t"
    by (simp add: timegm_timetuple_def unix_seconds_def)
  then show ?thesis
    using assms None by (simp add: from_datetime_def struct_pack_i_def ObjectId_init_def)
next
  case (Some d)
  from assms Some have "datetime_min \<le> wall_us t - d \<and> wall_us t - d \<le> datetime_max"
    by (intro div_in_range) (simp_all add: unix_seconds_def)
  then have sub: "datetime_sub t d = Inr (t\<lparr>wall_us := wall_us t - d\<rparr>)"
    by (simp add: datetime_sub_def)
  have "timegm_timetuple (t\<lparr>wall_us := wall_us t - d\<rparr>) = unix_seconds t"
    using Some by (simp add: timegm_timetuple_def unix_seconds_def)
  then show ?thesis
    using assms Some sub by (simp add: from_datetime_def struct_pack_i_def ObjectId_init_def)
qed

lemma from_datetime_out_of_range:
  assumes "\<not> (- (2 ^ 31) \<le> unix_seconds t \<and> unix_seconds t < 2 ^ 31)"
  shows "from_datetime e c t = Inl StructError \<or> from_datetime e c t = Inl OverflowError"
proof (cases "utcoffset t")
  case None
  then have "timegm_timetuple t = unix_seconds t"
    by (simp add: timegm_timetuple_def unix_seconds_def)
  then show ?thesis
    using assms None by (auto simp: from_datetime_def struct_pack_i_def)
next
  case (Some d)
  have "timegm_timetuple (t\<lparr>wall_us := wall_us t - d\<rparr>) = unix_seconds t"
    using Some by (simp add: timegm_timetuple_def unix_seconds_def)
  then show ?thesis
    using assms Some
    by (auto simp: from_datetime_def struct_pack_i_def datetime_sub_def Let_def)
qed

lemma from_datetime_Inr:
  assumes "from_datetime e c t = Inr (x, c')"
  shows "- (2 ^ 31) \<le> unix_seconds t \<and> unix_seconds t < 2 ^ 31"
  using assms from_datetime_out_of_range [of t e c] by auto


lemma bytes_lt_irrefl: "\<not> bytes_lt zs zs"
  by (induction zs) simp_all

lemma bytes_lt_append_same:
  "length xs = length ys \<Longrightarrow> bytes_lt (xs @ zs) (ys @ zs) = bytes_lt xs ys"
  by (induction xs ys rule: list_induct2) (simp_all add: bytes_lt_irrefl)

lemma lex_step:
  fixes a b r s P :: int
  assumes "0 \<le> r" "r < P" "0 \<le> s" "s < P"
  shows "(a * P + r < b * P + s) = (a < b \<or> (a = b \<and> r < s))"
proof -
  have up: "x * P + u < y * P + v" if "x < y" "u < P" "0 \<le> v" for x y u v :: int
  proof -
    from that have "x + 1 \<le> y" by simp
    moreover have "0 \<le> P" using assms by simp
    ultimately have "(x + 1) * P \<le> y * P" by (rule mult_right_mono)
    then have "x * P + P \<le> y * P" by (simp add: algebra_simps)
    then show ?thesis using that by simp
  qed
  consider "a < b" | "a = b" | "b < a" by linarith
  then show ?thesis
  proof cases
    case 1
    then show ?thesis using up [of a b r s] assms by simp
  next
    case 2
    then show ?thesis by simp
  next
    case 3
    then show ?thesis using up [of b a s r] assms by simp
  qed
qed

lemma uint_byte_bounds: "0 \<le> uint (b::byte) \<and> uint b < 256"
  using uint_lt2p [of b] by simp

lemma bytes_lt_4:
  "bytes_lt [a0, a1, a2, a3] [b0, b1, b2, b3] = (be_uint [a0, a1, a2, a3] < be_uint [b0, b1, b2, b3])"
proof -
  define r1 where "r1 = uint a3"
  define s1 where "s1 = uint b3"
  define r2 where "r2 = uint a2 * 256 + r1"
  define s2 where "s2 = uint b2 * 256 + s1"
  define r3 where "r3 = uint a1 * 65536 + r2"
  define s3 where "s3 = uint b1 * 65536 + s2"
  have b1: "0 \<le> r1" "r1 < 256" "0 \<le> s1" "s1 < 256"
    using uint_byte_bounds [of a3] uint_byte_bounds [of b3] by (simp_all add: r1_def s1_def)
  have b2: "0 \<le> r2" "r2 < 65536" "0 \<le> s2" "s2 < 65536"
    using b1 uint_byte_bounds [of a2] uint_byte_bounds [of b2] by (simp_all add: r2_def s2_def)
  have b3: "0 \<le> r3" "r3 < 16777216" "0 \<le> s3" "s3 < 16777216"
    using b2 uint_byte_bounds [of a1] uint_byte_bounds [of b1] by (simp_all add: r3_def s3_def)
  have l1: "(r1 < s1) = (a3 < b3)" by (simp add: r1_def s1_def word_less_def)
  have l2: "(r2 < s2) = (a2 < b2 \<or> (a2 = b2 \<and> a3 < b3))"
    unfolding r2_def s2_def lex_step [OF b1] l1 by (simp add: word_less_def word_uint_eq_iff)
  have l3: "(r3 < s3) = (a1 < b1 \<or> (a1 = b1 \<and> (a2 < b2 \<or> (a2 = b2 \<and> a3 < b3))))"
    unfolding r3_def s3_def lex_step [OF b2] l2 by (simp add: word_less_def word_uint_eq_iff)
  have l4: "(uint a0 * 16777216 + r3 < uint b0 * 16777216 + s3)
      = (a0 < b0 \<or> (a0 = b0 \<and> (a1 < b1 \<or> (a1 = b1 \<and> (a2 < b2 \<or> (a2 = b2 \<and> a3 < b3))))))"
    unfolding lex_step [OF b3] l3 by (simp add: word_less_def word_uint_eq_iff)
  have "be_uint [a0, a1, a2, a3] = uint a0 * 16777216 + r3"
    and "be_uint [b0, b1, b2, b3] = uint b0 * 16777216 + s3"
    by (simp_all add: be_uint_4 r3_def r2_def r1_def s3_def s2_def s1_def)
  then show ?thesis using l4 by simp
qed

lemma from_datetime_lt:
  assumes "from_datetime e c t1 = Inr (x1, c1)" "from_datetime e' c' t2 = Inr (x2, c2)"
  shows "ObjectId_lt x1 (PObjectId x2)
           = Bool (unix_seconds t1 mod 2 ^ 32 < unix_seconds t2 mod 2 ^ 32)"
proof -
  let ?p = "\<lambda>v::int. [word_of_int (v div 2 ^ 24), word_of_int (v div 2 ^ 16),
                        word_of_int (v div 2 ^ 8), word_of_int v :: byte]"
  from assms(1) have x1: "binary x1 = ?p (unix_seconds t1) @ [0, 0, 0, 0, 0, 0, 0, 0]"
    using from_datetime_Inr [OF assms(1)] from_datetime_in_range [of t1 e c] by simp
  from assms(2) have x2: "binary x2 = ?p (unix_seconds t2) @ [0, 0, 0, 0, 0, 0, 0, 0]"
    using from_datetime_Inr [OF assms(2)] from_datetime_in_range [of t2 e' c'] by simp
  have "bytes_lt (binary x1) (binary x2) = bytes_lt (?p (unix_seconds t1)) (?p (unix_seconds t2))"
    unfolding x1 x2 by (rule bytes_lt_append_same) simp
  also have "\<dots> = (be_uint (?p (unix_seconds t1)) < be_uint (?p (unix_seconds t2)))"
    by (rule bytes_lt_4)
  also have "\<dots> = (unix_seconds t1 mod 2 ^ 32 < unix_seconds t2 mod 2 ^ 32)"
    by (simp only: be_uint_pack)
  finally show ?thesis by simp
qed

lemma fromtimestamp_utc_32:
  assumes "- 2147483648 \<le> ts" "ts < 2147483648"
  shows "fromtimestamp_utc ts = Inr \<lparr>wall_us = ts * 1000000, utcoffset = Some 0\<rparr>"
  using assms by (simp add: fromtimestamp_utc_def datetime_min_def datetime_max_def)

lemma slice_0_4: "slice 0 4 (b0 # b1 # b2 # b3 # rest) = [b0, b1, b2, b3]"
  by (simp add: slice_def)

lemma datetime_lt_seconds:
  assumes "datetime_lt same_tzinfo t1 t2 = Inr True"
    and "same_tzinfo \<Longrightarrow> utcoffset t1 = utcoffset t2"
  shows "unix_seconds t1 \<le> unix_seconds t2"
proof -
  from assms have "wall_us t1 - (case utcoffset t1 of None \<Rightarrow> 0 | Some d \<Rightarrow> d)
      \<le> wall_us t2 - (case utcoffset t2 of None \<Rightarrow> 0 | Some d \<Rightarrow> d)"
    by (auto simp: datetime_lt_def split: option.splits if_splits)
  then show ?thesis unfolding unix_seconds_def by (rule zdiv_mono1) simp
qed

text \<open>Reading the generation time back from an identifier the query-only constructor
  has built, and from any identifier of at least four bytes.\<close>

lemma generation_time_after_from_datetime:
  assumes "from_datetime e c t = Inr (x, c')"
  shows "generation_time x = Inr \<lparr>wall_us = unix_seconds t * 1000000, utcoffset = Some 0\<rparr>"
proof -
  let ?s = "unix_seconds t"
  have r: "- (2 ^ 31) \<le> ?s \<and> ?s < 2 ^ 31" using assms by (rule from_datetime_Inr)
  let ?b = "[word_of_int (?s div 2 ^ 24), word_of_int (?s div 2 ^ 16),
             word_of_int (?s div 2 ^ 8), word_of_int ?s :: byte]"
  have pk: "struct_pack_i ?s = Inr ?b" using r by (simp add: struct_pack_i_def)
  have "x = ObjectId (?b @ [0, 0, 0, 0, 0, 0, 0, 0])"
    using assms r from_datetime_in_range [of t e c] by simp
  then have "slice 0 4 (binary x) = ?b" by (simp add: slice_def)
  then have "struct_unpack_i (slice 0 4 (binary x)) = Inr ?s"
    using unpack_pack [OF pk] by simp
  moreover have "fromtimestamp_utc ?s = Inr \<lparr>wall_us = ?s * 1000000, utcoffset = Some 0\<rparr>"
    using r by (intro fromtimestamp_utc_32) simp_all
  ultimately show ?thesis by (simp add: generation_time_def)
qed

lemma generation_time_reads_signed:
  "generation_time (ObjectId (b0 # b1 # b2 # b3 # rest))
     = Inr \<lparr>wall_us = sint (word_of_int (be_uint [b0, b1, b2, b3]) :: 32 word) * 1000000,
            utcoffset = Some 0\<rparr>"
proof -
  let ?u = "be_uint [b0, b1, b2, b3]"
  let ?ts = "sint (word_of_int ?u :: 32 word)"
  have u: "0 \<le> ?u" "?u < 2 ^ 32" using be_uint_range [of b0 b1 b2 b3] by simp_all
  then have ts: "?ts = (if ?u < 2 ^ 31 then ?u else ?u - 2 ^ 32)" by (rule sint_of_unsigned)
  have "struct_unpack_i [b0, b1, b2, b3] = Inr ?ts"
    unfolding ts by (simp add: struct_unpack_i_def Let_def)
  moreover have "- 2147483648 \<le> ?ts" "?ts < 2147483648"
    unfolding ts using u by (simp_all split: if_splits)
  then have "fromtimestamp_utc ?ts = Inr \<lparr>wall_us = ?ts * 1000000, utcoffset = Some 0\<rparr>"
    by (rule fromtimestamp_utc_32)
  ultimately show ?thesis by (simp add: generation_time_def slice_0_4)
qed

section \<open>The query-only constructor\<close>

text \<open>
  C5 as stated fails: not every calendar timestamp yields an identifier.  For the
  timestamp 2038-01-19T03:14:08 (Unix seconds \<open>2^31\<close>) \<open>struct.pack(">i", ...)\<close> raises
  \<open>struct.error\<close> and no identifier is produced.
\<close>

theorem from_datetime_counterexample:
  "from_datetime \<lparr>now = 0, pid = 0\<rparr> \<lparr>inc = 0, machine_bytes = [0, 0, 0]\<rparr>
     \<lparr>wall_us = 2147483648000000, utcoffset = None\<rparr> = Inl StructError"
  by (simp add: from_datetime_def timegm_timetuple_def struct_pack_i_def)

text \<open>
  C5, amended: for every calendar timestamp whose Unix seconds (a naive value taken as
  UTC, an aware value less its offset) lie in the signed 32-bit range, the query-only
  constructor produces a 12-byte identifier whose first 4 bytes are the big-endian signed
  32-bit encoding of the Unix seconds and whose remaining 8 bytes are zero; for every
  other timestamp it raises \<open>struct.error\<close> or \<open>OverflowError\<close> and produces nothing.
\<close>

theorem from_datetime_encodes_seconds:
  "(- (2 ^ 31) \<le> unix_seconds t \<and> unix_seconds t < 2 ^ 31 \<longrightarrow>
      (\<exists>x. from_datetime e c t = Inr (x, c)
           \<and> length (binary x) = 12
           \<and> be_uint (slice 0 4 (binary x)) = unix_seconds t mod 2 ^ 32
           \<and> struct_unpack_i (slice 0 4 (binary x)) = Inr (unix_seconds t)
           \<and> slice 4 12 (binary x) = [0, 0, 0, 0, 0, 0, 0, 0]))
   \<and> (\<not> (- (2 ^ 31) \<le> unix_seconds t \<and> unix_seconds t < 2 ^ 31) \<longrightarrow>
        (from_datetime e c t = Inl StructError \<or> from_datetime e c t = Inl OverflowError))"
proof (intro conjI impI)
  assume r: "- (2 ^ 31) \<le> unix_seconds t \<and> unix_seconds t < 2 ^ 31"
  let ?b = "[word_of_int (unix_seconds t div 2 ^ 24), word_of_int (unix_seconds t div 2 ^ 16),
             word_of_int (unix_seconds t div 2 ^ 8), word_of_int (unix_seconds t) :: byte]"
  let ?x = "ObjectId (?b @ [0, 0, 0, 0, 0, 0, 0, 0])"
  have pk: "struct_pack_i (unix_seconds t) = Inr ?b"
    using r by (simp add: struct_pack_i_def)
  have s04: "slice 0 4 (binary ?x) = ?b" by (simp add: slice_def)
  have "from_datetime e c t = Inr (?x, c)"
    using r by (simp add: from_datetime_in_range)
  moreover have "length (binary ?x) = 12" by simp
  moreover have "be_uint (slice 0 4 (binary ?x)) = unix_seconds t mod 2 ^ 32"
    unfolding s04 using unpack_pack [OF pk] by simp
  moreover have "struct_unpack_i (slice 0 4 (binary ?x)) = Inr (unix_seconds t)"
    unfolding s04 using unpack_pack [OF pk] by simp
  moreover have "slice 4 12 (binary ?x) = [0, 0, 0, 0, 0, 0, 0, 0]" by (simp add: slice_def)
  ultimately show "\<exists>x. from_datetime e c t = Inr (x, c)
           \<and> length (binary x) = 12
           \<and> be_uint (slice 0 4 (binary x)) = unix_seconds t mod 2 ^ 32
           \<and> struct_unpack_i (slice 0 4 (binary x)) = Inr (unix_seconds t)
           \<and> slice 4 12 (binary x) = [0, 0, 0, 0, 0, 0, 0, 0]"
    by blast
next
  assume "\<not> (- (2 ^ 31) \<le> unix_seconds t \<and> unix_seconds t < 2 ^ 31)"
  then show "from_datetime e c t = Inl StructError \<or> from_datetime e c t = Inl OverflowError"
    by (rule from_datetime_out_of_range)
qed

theorem from_datetime_encodes_seconds_witness:
  "unix_seconds \<lparr>wall_us = 1262307600000000, utcoffset = Some 3600000000\<rparr> = 1262304000
   \<and> from_datetime \<lparr>now = 0, pid = 0\<rparr> \<lparr>inc = 0, machine_bytes = [0, 0, 0]\<rparr>
        \<lparr>wall_us = 1262307600000000, utcoffset = Some 3600000000\<rparr>
       = Inr (ObjectId [0x4b, 0x3d, 0x3b, 0, 0, 0, 0, 0, 0, 0, 0, 0],
              \<lparr>inc = 0, machine_bytes = [0, 0, 0]\<rparr>)
   \<and> unix_seconds \<lparr>wall_us = 2147483648000000, utcoffset = None\<rparr> = 2147483648
   \<and> (from_datetime \<lparr>now = 0, pid = 0\<rparr> \<lparr>inc = 0, machine_bytes = [0, 0, 0]\<rparr>
         \<lparr>wall_us = 2147483648000000, utcoffset = None\<rparr> = Inl StructError
       \<or> from_datetime \<lparr>now = 0, pid = 0\<rparr> \<lparr>inc = 0, machine_bytes = [0, 0, 0]\<rparr>
         \<lparr>wall_us = 2147483648000000, utcoffset = None\<rparr> = Inl OverflowError)"
proof -
  let ?e = "\<lparr>now = 0, pid = 0\<rparr>"
  let ?c = "\<lparr>inc = 0, machine_bytes = [0, 0, 0]\<rparr>"
  let ?t1 = "\<lparr>wall_us = 1262307600000000, utcoffset = Some 3600000000\<rparr>"
  let ?t2 = "\<lparr>wall_us = 2147483648000000, utcoffset = None\<rparr>"
  have u1: "unix_seconds ?t1 = 1262304000" by (simp add: unix_seconds_def)
  have u2: "unix_seconds ?t2 = 2147483648" by (simp add: unix_seconds_def)
  have ev: "from_datetime ?e ?c ?t1 = Inr (ObjectId [0x4b, 0x3d, 0x3b, 0, 0, 0, 0, 0, 0, 0, 0, 0], ?c)"
    by (simp add: from_datetime_def datetime_sub_def datetime_min_def datetime_max_def
        timegm_timetuple_def struct_pack_i_def ObjectId_init_def)
  have r1: "- (2 ^ 31) \<le> unix_seconds ?t1 \<and> unix_seconds ?t1 < 2 ^ 31" unfolding u1 by simp
  have r2: "\<not> (- (2 ^ 31) \<le> unix_seconds ?t2 \<and> unix_seconds ?t2 < 2 ^ 31)" unfolding u2 by simp
  from from_datetime_encodes_seconds [of ?t1 ?e ?c] r1
  obtain x where "from_datetime ?e ?c ?t1 = Inr (x, ?c)" "length (binary x) = 12"
    by blast
  moreover from from_datetime_encodes_seconds [of ?t2 ?e ?c] r2
  have "from_datetime ?e ?c ?t2 = Inl StructError \<or> from_datetime ?e ?c ?t2 = Inl OverflowError"
    by blast
  ultimately show ?thesis using u1 u2 ev by simp
qed

text \<open>
  C6 as stated fails in two ways.  Two timestamps within one second give the same
  identifier, which is not strictly less than itself; and a timestamp before the epoch
  is packed as a negative number, whose bytes \<open>ff ...\<close> compare greater than those of a
  timestamp at or after the epoch.
\<close>

theorem from_datetime_order_counterexample:
  "datetime_lt True \<lparr>wall_us = 0, utcoffset = None\<rparr> \<lparr>wall_us = 500000, utcoffset = None\<rparr>
       = Inr True
   \<and> from_datetime \<lparr>now = 0, pid = 0\<rparr> \<lparr>inc = 0, machine_bytes = [0, 0, 0]\<rparr>
         \<lparr>wall_us = 0, utcoffset = None\<rparr>
       = Inr (ObjectId [0, 0, 0, 0, 0, 0, 0, 0, 0, 0, 0, 0], \<lparr>inc = 0, machine_bytes = [0, 0, 0]\<rparr>)
   \<and> from_datetime \<lparr>now = 0, pid = 0\<rparr> \<lparr>inc = 0, machine_bytes = [0, 0, 0]\<rparr>
         \<lparr>wall_us = 500000, utcoffset = None\<rparr>
       = Inr (ObjectId [0, 0, 0, 0, 0, 0, 0, 0, 0, 0, 0, 0], \<lparr>inc = 0, machine_bytes = [0, 0, 0]\<rparr>)
   \<and> ObjectId_lt (ObjectId [0, 0, 0, 0, 0, 0, 0, 0, 0, 0, 0, 0])
         (PObjectId (ObjectId [0, 0, 0, 0, 0, 0, 0, 0, 0, 0, 0, 0])) = Bool False
   \<and> datetime_lt True \<lparr>wall_us = - 1000000, utcoffset = None\<rparr> \<lparr>wall_us = 0, utcoffset = None\<rparr>
       = Inr True
   \<and> from_datetime \<lparr>now = 0, pid = 0\<rparr> \<lparr>inc = 0, machine_bytes = [0, 0, 0]\<rparr>
         \<lparr>wall_us = - 1000000, utcoffset = None\<rparr>
       = Inr (ObjectId [255, 255, 255, 255, 0, 0, 0, 0, 0, 0, 0, 0],
              \<lparr>inc = 0, machine_bytes = [0, 0, 0]\<rparr>)
   \<and> ObjectId_lt (ObjectId [255, 255, 255, 255, 0, 0, 0, 0, 0, 0, 0, 0])
         (PObjectId (ObjectId [0, 0, 0, 0, 0, 0, 0, 0, 0, 0, 0, 0])) = Bool False"
  by (simp add: datetime_lt_def from_datetime_def timegm_timetuple_def struct_pack_i_def
      ObjectId_init_def)

text \<open>
  C6, amended: for every pair of timestamps \<open>t1\<close>, \<open>t2\<close> whose Unix seconds satisfy
  \<open>s1 < s2\<close> (so \<open>t1 < t2\<close>, and the two do not fall in the same whole second) and lie
  both in \<open>[0, 2^31)\<close> or both in \<open>[-2^31, 0)\<close>, the identifier constructed from \<open>t1\<close>
  compares strictly less than the identifier constructed from \<open>t2\<close> under the
  lexicographic byte-wise comparison of the 12 raw bytes.
\<close>

theorem from_datetime_order:
  assumes "unix_seconds t1 < unix_seconds t2"
    and "(0 \<le> unix_seconds t1 \<and> unix_seconds t2 < 2 ^ 31)
         \<or> (- (2 ^ 31) \<le> unix_seconds t1 \<and> unix_seconds t2 < 0)"
  shows "\<exists>x1 x2. from_datetime e c t1 = Inr (x1, c) \<and> from_datetime e c t2 = Inr (x2, c)
           \<and> ObjectId_lt x1 (PObjectId x2) = Bool True"
proof -
  let ?s1 = "unix_seconds t1" and ?s2 = "unix_seconds t2"
  note lt = assms(1)
  have r1: "- (2 ^ 31) \<le> ?s1" "?s1 < 2 ^ 31" and r2: "- (2 ^ 31) \<le> ?s2" "?s2 < 2 ^ 31"
    using lt assms(2) by auto
  obtain x1 where x1: "from_datetime e c t1 = Inr (x1, c)"
    using from_datetime_in_range [OF r1] by simp
  obtain x2 where x2: "from_datetime e c t2 = Inr (x2, c)"
    using from_datetime_in_range [OF r2] by simp
  have "?s1 mod 4294967296 < ?s2 mod 4294967296"
  proof (cases "0 \<le> ?s1")
    case True
    then have "?s1 mod 4294967296 = ?s1" "?s2 mod 4294967296 = ?s2"
      using lt r1 r2 by simp_all
    then show ?thesis using lt by simp
  next
    case False
    then have n: "?s1 < 0" "?s2 < 0" using assms(2) lt by auto
    have "?s1 mod 4294967296 = ?s1 + 4294967296"
      using n r1 by (intro mod_below) simp_all
    moreover have "?s2 mod 4294967296 = ?s2 + 4294967296"
      using n r2 by (intro mod_below) simp_all
    ultimately show ?thesis using lt by simp
  qed
  then have "ObjectId_lt x1 (PObjectId x2) = Bool True"
    using from_datetime_lt [OF x1 x2] by simp
  then show ?thesis using x1 x2 by blast
qed

theorem from_datetime_order_witness:
  "datetime_lt True \<lparr>wall_us = 1262304000000000, utcoffset = None\<rparr>
       \<lparr>wall_us = 1262304001000000, utcoffset = None\<rparr> = Inr True
   \<and> unix_seconds \<lparr>wall_us = 1262304000000000, utcoffset = None\<rparr> = 1262304000
   \<and> unix_seconds \<lparr>wall_us = 1262304001000000, utcoffset = None\<rparr> = 1262304001
   \<and> ObjectId_lt (ObjectId [0x4b, 0x3d, 0x3b, 0, 0, 0, 0, 0, 0, 0, 0, 0])
         (PObjectId (ObjectId [0x4b, 0x3d, 0x3b, 1, 0, 0, 0, 0, 0, 0, 0, 0])) = Bool True"
proof -
  let ?e = "\<lparr>now = 0, pid = 0\<rparr>"
  let ?c = "\<lparr>inc = 0, machine_bytes = [0, 0, 0]\<rparr>"
  let ?t1 = "\<lparr>wall_us = 1262304000000000, utcoffset = None\<rparr>"
  let ?t2 = "\<lparr>wall_us = 1262304001000000, utcoffset = None\<rparr>"
  have lt: "datetime_lt True ?t1 ?t2 = Inr True" by (simp add: datetime_lt_def)
  have u1: "unix_seconds ?t1 = 1262304000" by (simp add: unix_seconds_def)
  have u2: "unix_seconds ?t2 = 1262304001" by (simp add: unix_seconds_def)
  have ls: "unix_seconds ?t1 < unix_seconds ?t2" unfolding u1 u2 by simp
  have sg: "(0 \<le> unix_seconds ?t1 \<and> unix_seconds ?t2 < 2 ^ 31)
         \<or> (- (2 ^ 31) \<le> unix_seconds ?t1 \<and> unix_seconds ?t2 < 0)" unfolding u1 u2 by simp
  have e1: "from_datetime ?e ?c ?t1 = Inr (ObjectId [0x4b, 0x3d, 0x3b, 0, 0, 0, 0, 0, 0, 0, 0, 0], ?c)"
    by (simp add: from_datetime_def timegm_timetuple_def struct_pack_i_def ObjectId_init_def)
  have e2: "from_datetime ?e ?c ?t2 = Inr (ObjectId [0x4b, 0x3d, 0x3b, 1, 0, 0, 0, 0, 0, 0, 0, 0], ?c)"
    by (simp add: from_datetime_def timegm_timetuple_def struct_pack_i_def ObjectId_init_def)
  from from_datetime_order [OF ls sg, of ?e ?c]
  have "ObjectId_lt (ObjectId [0x4b, 0x3d, 0x3b, 0, 0, 0, 0, 0, 0, 0, 0, 0])
         (PObjectId (ObjectId [0x4b, 0x3d, 0x3b, 1, 0, 0, 0, 0, 0, 0, 0, 0])) = Bool True"
    unfolding e1 e2 by simp
  then show ?thesis using lt u1 u2 by simp
qed

text \<open>
  C7 as stated fails: not every input timestamp has an identifier to read back.  For the
  timestamp 1901-12-13T20:45:51 (Unix seconds \<open>-2^31 - 1\<close>) the query-only constructor
  raises \<open>struct.error\<close>, so the extraction after it returns nothing.
\<close>

theorem generation_time_of_from_datetime_counterexample:
  "from_datetime \<lparr>now = 0, pid = 0\<rparr> \<lparr>inc = 0, machine_bytes = [0, 0, 0]\<rparr>
       \<lparr>wall_us = - 2147483649000000, utcoffset = None\<rparr> = Inl StructError
   \<and> (case from_datetime \<lparr>now = 0, pid = 0\<rparr> \<lparr>inc = 0, machine_bytes = [0, 0, 0]\<rparr>
              \<lparr>wall_us = - 2147483649000000, utcoffset = None\<rparr> of
         Inl err \<Rightarrow> Inl err
       | Inr (x, c') \<Rightarrow> generation_time x) = Inl StructError"
  by (simp add: from_datetime_def timegm_timetuple_def struct_pack_i_def)

text \<open>
  C7, amended: for every input timestamp \<open>t\<close> whose Unix seconds lie in the signed
  32-bit range, the query-only constructor builds an identifier, and the generation time
  extracted from it is \<open>t\<close> truncated to whole seconds, as a UTC-aware timestamp; for
  every other timestamp the constructor raises and there is nothing to extract from.  The
  extraction reads the first 4 raw bytes as a signed big-endian 32-bit integer, and is a
  function of the identifier that returns a value and changes nothing.
\<close>

theorem generation_time_of_from_datetime:
  "(- (2 ^ 31) \<le> unix_seconds t \<and> unix_seconds t < 2 ^ 31 \<longrightarrow>
      (\<exists>x. from_datetime e c t = Inr (x, c)
           \<and> generation_time x
               = Inr \<lparr>wall_us = unix_seconds t * 1000000, utcoffset = Some 0\<rparr>))
   \<and> (\<not> (- (2 ^ 31) \<le> unix_seconds t \<and> unix_seconds t < 2 ^ 31) \<longrightarrow>
        (from_datetime e c t = Inl StructError \<or> from_datetime e c t = Inl OverflowError))
   \<and> generation_time (ObjectId (b0 # b1 # b2 # b3 # rest))
       = Inr \<lparr>wall_us = sint (word_of_int (be_uint [b0, b1, b2, b3]) :: 32 word) * 1000000,
              utcoffset = Some 0\<rparr>"
proof (intro conjI impI)
  assume r: "- (2 ^ 31) \<le> unix_seconds t \<and> unix_seconds t < 2 ^ 31"
  then obtain x where x: "from_datetime e c t = Inr (x, c)"
    using from_datetime_in_range [of t e c] by simp
  then have "generation_time x
      = Inr \<lparr>wall_us = unix_seconds t * 1000000, utcoffset = Some 0\<rparr>"
    by (rule generation_time_after_from_datetime)
  with x show "\<exists>x. from_datetime e c t = Inr (x, c)
           \<and> generation_time x
               = Inr \<lparr>wall_us = unix_seconds t * 1000000, utcoffset = Some 0\<rparr>"
    by blast
next
  assume "\<not> (- (2 ^ 31) \<le> unix_seconds t \<and> unix_seconds t < 2 ^ 31)"
  then show "from_datetime e c t = Inl StructError \<or> from_datetime e c t = Inl OverflowError"
    by (rule from_datetime_out_of_range)
next
  show "generation_time (ObjectId (b0 # b1 # b2 # b3 # rest))
       = Inr \<lparr>wall_us = sint (word_of_int (be_uint [b0, b1, b2, b3]) :: 32 word) * 1000000,
              utcoffset = Some 0\<rparr>"
    by (rule generation_time_reads_signed)
qed

theorem generation_time_of_from_datetime_witness:
  "unix_seconds \<lparr>wall_us = 1262307600999999, utcoffset = Some 3600000000\<rparr> = 1262304000
   \<and> from_datetime \<lparr>now = 0, pid = 0\<rparr> \<lparr>inc = 0, machine_bytes = [0, 0, 0]\<rparr>
        \<lparr>wall_us = 1262307600999999, utcoffset = Some 3600000000\<rparr>
       = Inr (ObjectId [0x4b, 0x3d, 0x3b, 0, 0, 0, 0, 0, 0, 0, 0, 0],
              \<lparr>inc = 0, machine_bytes = [0, 0, 0]\<rparr>)
   \<and> generation_time (ObjectId [0x4b, 0x3d, 0x3b, 0, 0, 0, 0, 0, 0, 0, 0, 0])
       = Inr \<lparr>wall_us = 1262304000000000, utcoffset = Some 0\<rparr>
   \<and> unix_seconds \<lparr>wall_us = - 2147483649000000, utcoffset = None\<rparr> = - 2147483649
   \<and> (from_datetime \<lparr>now = 0, pid = 0\<rparr> \<lparr>inc = 0, machine_bytes = [0, 0, 0]\<rparr>
         \<lparr>wall_us = - 2147483649000000, utcoffset = None\<rparr> = Inl StructError
       \<or> from_datetime \<lparr>now = 0, pid = 0\<rparr> \<lparr>inc = 0, machine_bytes = [0, 0, 0]\<rparr>
         \<lparr>wall_us = - 2147483649000000, utcoffset = None\<rparr> = Inl OverflowError)"
proof -
  let ?e = "\<lparr>now = 0, pid = 0\<rparr>"
  let ?c = "\<lparr>inc = 0, machine_bytes = [0, 0, 0]\<rparr>"
  let ?t = "\<lparr>wall_us = 1262307600999999, utcoffset = Some 3600000000\<rparr>"
  let ?early = "\<lparr>wall_us = - 2147483649000000, utcoffset = None\<rparr>"
  let ?x = "ObjectId [0x4b, 0x3d, 0x3b, 0, 0, 0, 0, 0, 0, 0, 0, 0]"
  have ev: "from_datetime ?e ?c ?t = Inr (?x, ?c)"
    by (simp add: from_datetime_def datetime_sub_def datetime_min_def datetime_max_def
        timegm_timetuple_def struct_pack_i_def ObjectId_init_def)
  have u: "unix_seconds ?t = 1262304000" by (simp add: unix_seconds_def)
  have v: "unix_seconds ?early = - 2147483649" by (simp add: unix_seconds_def)
  have r: "- (2 ^ 31) \<le> unix_seconds ?t \<and> unix_seconds ?t < 2 ^ 31" unfolding u by simp
  have o: "\<not> (- (2 ^ 31) \<le> unix_seconds ?early \<and> unix_seconds ?early < 2 ^ 31)"
    unfolding v by simp
  note inst = generation_time_of_from_datetime [of ?t ?e ?c 0 0 0 0 "[]"]
  from inst r obtain y where y: "from_datetime ?e ?c ?t = Inr (y, ?c)"
    and gy: "generation_time y = Inr \<lparr>wall_us = unix_seconds ?t * 1000000, utcoffset = Some 0\<rparr>"
    by blast
  from y ev have "y = ?x" by simp
  with gy u have g: "generation_time ?x = Inr \<lparr>wall_us = 1262304000000000, utcoffset = Some 0\<rparr>"
    by simp
  from generation_time_of_from_datetime [of ?early ?e ?c 0 0 0 0 "[]"] o
  have "from_datetime ?e ?c ?early = Inl StructError \<or> from_datetime ?e ?c ?early = Inl OverflowError"
    by blast
  then show ?thesis using ev u v g by simp
qed

section \<open>Construction paths and the validity check\<close>

lemma cls_reachable_machine_bytes: "cls_reachable c \<Longrightarrow> length (machine_bytes c) = 3"
proof (induction rule: cls_reachable.induct)
  case (loaded r hostname c)
  then show ?case
    using machine_bytes_of_length [of hostname] by (auto simp: cls_load_def)
next
  case (generated c e x c')
  then show ?case by (auto simp: generate_def split: sum.splits)
qed

lemma generate_length:
  assumes "generate e c = Inr (x, c')" "length (machine_bytes c) = 3"
  shows "length (binary x) = 12"
  using assms
  by (auto simp: generate_def split: sum.splits
      dest!: struct_pack_i_length struct_pack_H_length)

lemma bytes_from_hex_length: "bytes_from_hex s = Inr b \<Longrightarrow> length s = 2 * length b"
  by (induction s arbitrary: b rule: bytes_from_hex.induct)
    (auto split: option.splits sum.splits)

lemma bytes_from_hex_error: "bytes_from_hex s = Inl err \<Longrightarrow> err = ValueError"
  by (induction s rule: bytes_from_hex.induct) (auto split: option.splits sum.splits)

lemma bytes_from_hex_non_hex:
  "ch \<in> set s \<Longrightarrow> hexval ch = None \<Longrightarrow> bytes_from_hex s = Inl ValueError"
proof (induction s rule: bytes_from_hex.induct)
  case 1
  then show ?case by simp
next
  case (2 hi)
  then show ?case by simp
next
  case (3 hi lo rest)
  show ?case
  proof (cases "hexval hi = None \<or> hexval lo = None")
    case True
    then show ?thesis by (auto split: option.splits)
  next
    case False
    then obtain h l where hl: "hexval hi = Some h" "hexval lo = Some l" by auto
    from False "3.prems" have "ch \<in> set rest" by auto
    then have "bytes_from_hex rest = Inl ValueError"
      using "3.IH" [of "hexval hi" "hexval lo" h l] hl "3.prems"(2) by simp
    then show ?thesis using hl by simp
  qed
qed

lemma validate_length:
  assumes "validate v = Inr x" "\<And>y. v = PObjectId y \<Longrightarrow> length (binary y) = 12"
  shows "length (binary x) = 12"
proof (cases v)
  case (PStr s)
  with assms(1) obtain b where "bytes_from_hex s = Inr b" "length s = 24" "x = ObjectId b"
    by (auto split: if_splits sum.splits)
  then show ?thesis using bytes_from_hex_length [of s b] by simp
next
  case (PObjectId y)
  with assms show ?thesis by auto
qed (use assms in auto)

lemma validate_error: "validate v = Inl err \<Longrightarrow> err = InvalidId \<or> err = TypeError"
  by (cases v) (auto split: if_splits sum.splits dest: bytes_from_hex_error)

lemma ObjectId_init_validate:
  assumes "v \<noteq> PNone" "\<And>b. v = PBytes b \<Longrightarrow> length b \<noteq> 12"
  shows "ObjectId_init e c v = (case validate v of Inl err \<Rightarrow> Inl err | Inr x \<Rightarrow> Inr (x, c))"
  using assms by (cases v) (simp_all add: ObjectId_init_def)

lemma ObjectId_init_length:
  assumes "ObjectId_init e c v = Inr (x, c')"
    and "v = PNone \<Longrightarrow> length (machine_bytes c) = 3"
    and "\<And>y. v = PObjectId y \<Longrightarrow> length (binary y) = 12"
  shows "length (binary x) = 12"
proof (cases "v = PNone \<or> (\<exists>b. v = PBytes b \<and> length b = 12)")
  case True
  then show ?thesis
  proof
    assume "v = PNone"
    with assms show ?thesis by (auto simp: ObjectId_init_def dest: generate_length)
  next
    assume "\<exists>b. v = PBytes b \<and> length b = 12"
    with assms(1) show ?thesis by (auto simp: ObjectId_init_def)
  qed
next
  case False
  then have "ObjectId_init e c v = (case validate v of Inl err \<Rightarrow> Inl err | Inr x \<Rightarrow> Inr (x, c))"
    by (intro ObjectId_init_validate) auto
  with assms(1) have "validate v = Inr x" by (cases "validate v") simp_all
  then show ?thesis using assms(3) by (rule validate_length)
qed

lemma from_datetime_length: "from_datetime e c t = Inr (x, c') \<Longrightarrow> length (binary x) = 12"
  using from_datetime_Inr [of e c t x c'] from_datetime_in_range [of t e c] by auto

lemma is_valid_characterisation:
  "is_valid e c oid = Inr (truthy oid \<and> (\<exists>x c'. ObjectId_init e c oid = Inr (x, c')))"
proof (cases "truthy oid")
  case False
  then show ?thesis by (simp add: is_valid_def)
next
  case True
  then have "oid \<noteq> PNone" by auto
  show ?thesis
  proof (cases "\<exists>b. oid = PBytes b \<and> length b = 12")
    case True
    then show ?thesis by (auto simp: is_valid_def is_valid_try_def ObjectId_init_def)
  next
    case False
    with \<open>oid \<noteq> PNone\<close>
    have i: "ObjectId_init e c oid = (case validate oid of Inl err \<Rightarrow> Inl err | Inr x \<Rightarrow> Inr (x, c))"
      by (intro ObjectId_init_validate) auto
    show ?thesis
    proof (cases "validate oid")
      case (Inl err)
      then show ?thesis
        using \<open>truthy oid\<close> validate_error [OF Inl] by (auto simp: is_valid_def is_valid_try_def i)
    next
      case (Inr x)
      then show ?thesis using \<open>truthy oid\<close> by (simp add: is_valid_def is_valid_try_def i)
    qed
  qed
qed

lemma is_valid_text_wrong_length: "length s \<noteq> 24 \<Longrightarrow> is_valid e c (PStr s) = Inr False"
  by (simp add: is_valid_def is_valid_try_def ObjectId_init_def)

lemma is_valid_text_non_hex:
  "ch \<in> set s \<Longrightarrow> hexval ch = None \<Longrightarrow> is_valid e c (PStr s) = Inr False"
  using bytes_from_hex_non_hex [of ch s]
  by (simp add: is_valid_def is_valid_try_def ObjectId_init_def)

lemma is_valid_bytes: "is_valid e c (PBytes b) = Inr (length b = 12)"
  by (auto simp: is_valid_def is_valid_try_def ObjectId_init_def)

lemma is_valid_hex_rendering:
  assumes "length (binary x) = 12"
  shows "is_valid e c (PStr (ObjectId_str x)) = Inr True"
proof -
  have len: "length (ObjectId_str x) = 24"
    using assms by (simp add: ObjectId_str_def length_hexlify)
  then have "ObjectId_str x \<noteq> []" by auto
  moreover have "bytes_from_hex (ObjectId_str x) = Inr (binary x)"
    by (simp add: ObjectId_str_def bytes_from_hex_hexlify)
  ultimately show ?thesis
    using len by (simp add: is_valid_def is_valid_try_def ObjectId_init_def)
qed

text \<open>
  C9: every identifier produced by a successful construction path (fresh generation,
  construction from 12 raw bytes, construction from a 24-character hexadecimal string,
  copy of an existing identifier, or the query-only timestamp constructor) has exactly
  12 raw bytes.
\<close>

theorem constructed_length: "constructed x \<Longrightarrow> length (binary x) = 12"
proof (induction rule: constructed.induct)
  case (fresh c e x c')
  then show ?case
    using cls_reachable_machine_bytes [of c] by (intro ObjectId_init_length [of e c PNone x c']) simp_all
next
  case (of_bytes e c b x c')
  then show ?case by (intro ObjectId_init_length [of e c "PBytes b" x c']) simp_all
next
  case (of_text e c s x c')
  then show ?case by (intro ObjectId_init_length [of e c "PStr s" x c']) simp_all
next
  case (of_int e c n x c')
  then show ?case by (intro ObjectId_init_length [of e c "PInt n" x c']) simp_all
next
  case (copied y e c x c')
  then show ?case by (intro ObjectId_init_length [of e c "PObjectId y" x c']) simp_all
next
  case (of_datetime e c t x c')
  then show ?case by (rule from_datetime_length)
qed

theorem constructed_length_witness:
  "constructed (ObjectId [0, 0, 0, 0, 0x44, 0x9d, 0x1c, 0, 1, 0, 0, 5])
   \<and> length (binary (ObjectId [0, 0, 0, 0, 0x44, 0x9d, 0x1c, 0, 1, 0, 0, 5])) = 12"
proof -
  let ?c = "\<lparr>inc = 5, machine_bytes = [0x44, 0x9d, 0x1c]\<rparr>"
  let ?x = "ObjectId [0, 0, 0, 0, 0x44, 0x9d, 0x1c, 0, 1, 0, 0, 5]"
  have "cls_load [] 5 = Inr ?c"
    by (simp add: cls_load_def machine_bytes_of_def fnv_1a_24_def struct_pack_I_le_def)
  then have "cls_reachable ?c" by (intro loaded [of 5 "[]"]) simp_all
  moreover have "ObjectId_init \<lparr>now = 0, pid = 1\<rparr> ?c PNone = Inr (?x, \<lparr>inc = 6, machine_bytes = [0x44, 0x9d, 0x1c]\<rparr>)"
    by (simp add: ObjectId_init_def generate_def struct_pack_i_def struct_pack_H_def)
  ultimately have c: "constructed ?x" by (rule fresh)
  from constructed_length [OF c] c show ?thesis by simp
qed

text \<open>
  C8: the validity check returns a boolean that is true exactly when the candidate is
  truthy and constructing an identifier from it succeeds; a falsy candidate is false at
  once.  It is false for \<open>None\<close>, the empty string, a string of any length other than 24
  (23 or 25 hexadecimal characters), a 24-character string with a non-hexadecimal
  character, an integer, and a byte sequence of any length other than 12 (11 or 13); it is
  true for a freshly generated identifier, for its hexadecimal rendering and for any 12
  bytes.  Its handler turns \<open>InvalidId\<close> and \<open>TypeError\<close> into false and lets every
  other exception through.
\<close>

theorem is_valid_spec:
  "is_valid e c oid = Inr (truthy oid \<and> (\<exists>x c'. ObjectId_init e c oid = Inr (x, c')))
   \<and> (\<not> truthy oid \<longrightarrow> is_valid e c oid = Inr False)
   \<and> is_valid e c PNone = Inr False
   \<and> is_valid e c (PStr []) = Inr False
   \<and> (length s \<noteq> 24 \<longrightarrow> is_valid e c (PStr s) = Inr False)
   \<and> (length s = 24 \<and> ch \<in> set s \<and> hexval ch = None \<longrightarrow> is_valid e c (PStr s) = Inr False)
   \<and> is_valid e c (PInt n) = Inr False
   \<and> (length b \<noteq> 12 \<longrightarrow> is_valid e c (PBytes b) = Inr False)
   \<and> (cls_reachable c0 \<and> generate e0 c0 = Inr (x, c1) \<longrightarrow>
        is_valid e c (PObjectId x) = Inr True \<and> is_valid e c (PStr (ObjectId_str x)) = Inr True)
   \<and> (length b = 12 \<longrightarrow> is_valid e c (PBytes b) = Inr True)
   \<and> (err \<noteq> InvalidId \<and> err \<noteq> TypeError \<longrightarrow>
        is_valid_try (Inl err :: error + (ObjectId \<times> cls_state)) = Inl err)"
proof (intro conjI impI)
  show "is_valid e c oid = Inr (truthy oid \<and> (\<exists>x c'. ObjectId_init e c oid = Inr (x, c')))"
    by (rule is_valid_characterisation)
  show "is_valid e c oid = Inr False" if "\<not> truthy oid"
    using that by (simp add: is_valid_def)
  show "is_valid e c PNone = Inr False" by (simp add: is_valid_def)
  show "is_valid e c (PStr []) = Inr False" by (simp add: is_valid_def)
  show "is_valid e c (PStr s) = Inr False" if "length s \<noteq> 24"
    using that by (rule is_valid_text_wrong_length)
  show "is_valid e c (PStr s) = Inr False" if "length s = 24 \<and> ch \<in> set s \<and> hexval ch = None"
    using that is_valid_text_non_hex [of ch s] by simp
  show "is_valid e c (PInt n) = Inr False"
    by (simp add: is_valid_def is_valid_try_def ObjectId_init_def)
  show "is_valid e c (PBytes b) = Inr False" if "length b \<noteq> 12"
    using that by (simp add: is_valid_bytes)
  show "is_valid e c (PBytes b) = Inr True" if "length b = 12"
    using that by (simp add: is_valid_bytes)
  show "is_valid_try (Inl err :: error + (ObjectId \<times> cls_state)) = Inl err"
    if "err \<noteq> InvalidId \<and> err \<noteq> TypeError"
    using that by (simp add: is_valid_try_def)
next
  assume g: "cls_reachable c0 \<and> generate e0 c0 = Inr (x, c1)"
  show "is_valid e c (PObjectId x) = Inr True"
    by (simp add: is_valid_def is_valid_try_def ObjectId_init_def)
  from g have "length (binary x) = 12"
    using generate_length [of e0 c0 x c1] cls_reachable_machine_bytes [of c0] by simp
  then show "is_valid e c (PStr (ObjectId_str x)) = Inr True"
    by (rule is_valid_hex_rendering)
qed


theorem is_valid_spec_witness:
  "is_valid \<lparr>now = 0, pid = 1\<rparr> \<lparr>inc = 6, machine_bytes = [0x44, 0x9d, 0x1c]\<rparr>
      (PStr ''0123456789ab0123456789a'') = Inr False
   \<and> is_valid \<lparr>now = 0, pid = 1\<rparr> \<lparr>inc = 6, machine_bytes = [0x44, 0x9d, 0x1c]\<rparr>
      (PStr ''0123456789ab0123456789abc'') = Inr False
   \<and> is_valid \<lparr>now = 0, pid = 1\<rparr> \<lparr>inc = 6, machine_bytes = [0x44, 0x9d, 0x1c]\<rparr>
      (PStr ''0123456789ab0123456789ag'') = Inr False
   \<and> is_valid \<lparr>now = 0, pid = 1\<rparr> \<lparr>inc = 6, machine_bytes = [0x44, 0x9d, 0x1c]\<rparr>
      (PBytes [1, 2, 3, 4, 5, 6, 7, 8, 9, 10, 11]) = Inr False
   \<and> is_valid \<lparr>now = 0, pid = 1\<rparr> \<lparr>inc = 6, machine_bytes = [0x44, 0x9d, 0x1c]\<rparr>
      (PBytes [1, 2, 3, 4, 5, 6, 7, 8, 9, 10, 11, 12, 13]) = Inr False
   \<and> is_valid \<lparr>now = 0, pid = 1\<rparr> \<lparr>inc = 6, machine_bytes = [0x44, 0x9d, 0x1c]\<rparr>
      (PBytes [1, 2, 3, 4, 5, 6, 7, 8, 9, 10, 11, 12]) = Inr True
   \<and> generate \<lparr>now = 0, pid = 1\<rparr> \<lparr>inc = 5, machine_bytes = [0x44, 0x9d, 0x1c]\<rparr>
       = Inr (ObjectId [0, 0, 0, 0, 0x44, 0x9d, 0x1c, 0, 1, 0, 0, 5],
              \<lparr>inc = 6, machine_bytes = [0x44, 0x9d, 0x1c]\<rparr>)
   \<and> is_valid \<lparr>now = 0, pid = 1\<rparr> \<lparr>inc = 6, machine_bytes = [0x44, 0x9d, 0x1c]\<rparr>
      (PObjectId (ObjectId [0, 0, 0, 0, 0x44, 0x9d, 0x1c, 0, 1, 0, 0, 5])) = Inr True
   \<and> is_valid \<lparr>now = 0, pid = 1\<rparr> \<lparr>inc = 6, machine_bytes = [0x44, 0x9d, 0x1c]\<rparr>
      (PStr ''00000000449d1c0001000005'') = Inr True
   \<and> is_valid_try (Inl ValueError :: error + (ObjectId \<times> cls_state)) = Inl ValueError"
proof -
  let ?e = "\<lparr>now = 0, pid = 1\<rparr>"
  let ?before = "\<lparr>inc = 5, machine_bytes = [0x44, 0x9d, 0x1c]\<rparr>"
  let ?after = "\<lparr>inc = 6, machine_bytes = [0x44, 0x9d, 0x1c]\<rparr>"
  let ?x = "ObjectId [0, 0, 0, 0, 0x44, 0x9d, 0x1c, 0, 1, 0, 0, 5]"
  have "cls_load [] 5 = Inr ?before"
    by (simp add: cls_load_def machine_bytes_of_def fnv_1a_24_def struct_pack_I_le_def)
  then have r: "cls_reachable ?before" by (intro loaded [of 5 "[]"]) simp_all
  have g: "generate ?e ?before = Inr (?x, ?after)"
    by (simp add: generate_def struct_pack_i_def struct_pack_H_def)
  have str: "ObjectId_str ?x = ''00000000449d1c0001000005''" by code_simp
  have nh: "CHR ''g'' \<in> set ''0123456789ab0123456789ag'' \<and> hexval CHR ''g'' = None"
    by (simp add: hexval_def)
  note a = is_valid_spec [where e = ?e and c = ?after and s = "''0123456789ab0123456789a''"
      and oid = PNone and n = 0 and ch = "CHR ''g''"
      and b = "[1, 2, 3, 4, 5, 6, 7, 8, 9, 10, 11]" and ?c0.0 = ?before and ?e0.0 = ?e and x = ?x
      and ?c1.0 = ?after and err = ValueError]
  note b = is_valid_spec [where e = ?e and c = ?after and s = "''0123456789ab0123456789abc''"
      and oid = PNone and n = 0 and ch = "CHR ''g''"
      and b = "[1, 2, 3, 4, 5, 6, 7, 8, 9, 10, 11, 12, 13]" and ?c0.0 = ?before and ?e0.0 = ?e
      and x = ?x and ?c1.0 = ?after and err = ValueError]
  note d = is_valid_spec [where e = ?e and c = ?after and s = "''0123456789ab0123456789ag''"
      and oid = PNone and n = 0 and ch = "CHR ''g''"
      and b = "[1, 2, 3, 4, 5, 6, 7, 8, 9, 10, 11, 12]" and ?c0.0 = ?before and ?e0.0 = ?e
      and x = ?x and ?c1.0 = ?after and err = ValueError]
  have "is_valid ?e ?after (PStr ''0123456789ab0123456789a'') = Inr False"
    and "is_valid ?e ?after (PBytes [1, 2, 3, 4, 5, 6, 7, 8, 9, 10, 11]) = Inr False"
    and "is_valid ?e ?after (PObjectId ?x) = Inr True"
    and "is_valid ?e ?after (PStr (ObjectId_str ?x)) = Inr True"
    and "is_valid_try (Inl ValueError :: error + (ObjectId \<times> cls_state)) = Inl ValueError"
    using a r g by simp_all
  moreover have "is_valid ?e ?after (PStr ''0123456789ab0123456789abc'') = Inr False"
    and "is_valid ?e ?after (PBytes [1, 2, 3, 4, 5, 6, 7, 8, 9, 10, 11, 12, 13]) = Inr False"
    using b by simp_all
  moreover have "is_valid ?e ?after (PStr ''0123456789ab0123456789ag'') = Inr False"
    and "is_valid ?e ?after (PBytes [1, 2, 3, 4, 5, 6, 7, 8, 9, 10, 11, 12]) = Inr True"
    using d nh by simp_all
  ultimately show ?thesis using g unfolding str by simp
qed

section \<open>Comparison with values of other types\<close>

text \<open>
  C10: each of the six comparison methods, applied to an identifier and a value that is
  not an identifier, returns \<open>NotImplemented\<close>; in particular the equality method never
  returns true for the identifier's own 12 raw bytes or its hexadecimal rendering.
\<close>

theorem compare_with_non_identifier:
  assumes "\<forall>y. other \<noteq> PObjectId y"
  shows "ObjectId_eq x other = NotImplemented \<and> ObjectId_ne x other = NotImplemented
       \<and> ObjectId_lt x other = NotImplemented \<and> ObjectId_le x other = NotImplemented
       \<and> ObjectId_gt x other = NotImplemented \<and> ObjectId_ge x other = NotImplemented
       \<and> ObjectId_eq x (PBytes (binary x)) = NotImplemented
       \<and> ObjectId_eq x (PStr (ObjectId_str x)) = NotImplemented
       \<and> ObjectId_eq x (PBytes (binary x)) \<noteq> Bool True
       \<and> ObjectId_eq x (PStr (ObjectId_str x)) \<noteq> Bool True"
  using assms by (cases other) simp_all

theorem compare_with_non_identifier_witness:
  "(\<forall>y. PBytes [1, 2, 3, 4, 5, 6, 7, 8, 9, 10, 11, 12] \<noteq> PObjectId y)
   \<and> ObjectId_eq (ObjectId [1, 2, 3, 4, 5, 6, 7, 8, 9, 10, 11, 12])
        (PBytes [1, 2, 3, 4, 5, 6, 7, 8, 9, 10, 11, 12]) = NotImplemented
   \<and> ObjectId_lt (ObjectId [1, 2, 3, 4, 5, 6, 7, 8, 9, 10, 11, 12])
        (PBytes [1, 2, 3, 4, 5, 6, 7, 8, 9, 10, 11, 12]) = NotImplemented"
proof -
  have h: "\<forall>y. PBytes [1, 2, 3, 4, 5, 6, 7, 8, 9, 10, 11, 12] \<noteq> PObjectId y" by simp
  from compare_with_non_identifier [OF h, of "ObjectId [1, 2, 3, 4, 5, 6, 7, 8, 9, 10, 11, 12]"] h
  show ?thesis by blast
qed

end
